theory Spec2Isabelle
  imports Complex_Main
begin

section \<open>Python values\<close>

text \<open>
  A Python \<open>str\<close> is a sequence of Unicode code points. Code points are natural numbers;
  a well-formed \<open>str\<close> holds only code points below \<open>0x110000\<close> (\<open>pystr_ok\<close>).
  Surrogate code points (\<open>0xD800\<close> to \<open>0xDFFF\<close>) are legal elements of a Python \<open>str\<close>.
  String literals of the source are ASCII and are written \<open>lit ''...''\<close>.
\<close>

type_synonym pystr = "nat list"

definition lit :: "string \<Rightarrow> pystr" where
  "lit s = map of_char s"

definition pystr_ok :: "pystr \<Rightarrow> bool" where
  "pystr_ok s = list_all (\<lambda>c. c < 0x110000) s"

text \<open>
  The Python objects that occur in the messages of \<open>scripts/test-pubsub.py\<close> and in
  the results of \<open>json.loads\<close>: \<open>None\<close>, booleans, unbounded integers, strings, lists
  and dictionaries with string keys. A dictionary is an association list in insertion
  order. Python floats are not modelled.
\<close>

datatype pyval =
    PyNone
  | PyBool bool
  | PyInt int
  | PyStr pystr
  | PyList "pyval list"
  | PyDict "(pystr \<times> pyval) list"

text \<open>\<open>d[k] = v\<close> on a dictionary: an existing key keeps its position, a new key goes last.\<close>

fun dict_setitem :: "pystr \<Rightarrow> pyval \<Rightarrow> (pystr \<times> pyval) list \<Rightarrow> (pystr \<times> pyval) list" where
  "dict_setitem k v [] = [(k, v)]"
| "dict_setitem k v ((k', v') # kvs) =
     (if k' = k then (k', v) # kvs else (k', v') # dict_setitem k v kvs)"

text \<open>\<open>dict(pairs)\<close>: the pairs are inserted from left to right.\<close>

definition dict_of_pairs :: "(pystr \<times> pyval) list \<Rightarrow> (pystr \<times> pyval) list" where
  "dict_of_pairs pairs = foldl (\<lambda>d (k, v). dict_setitem k v d) [] pairs"

text \<open>\<open>d.get(k)\<close> on a value; \<open>None\<close> also when the value is no dictionary.\<close>

fun dict_get :: "pyval \<Rightarrow> pystr \<Rightarrow> pyval option" where
  "dict_get (PyDict kvs) k = map_of kvs k"
| "dict_get _ k = None"

section \<open>The standard library's \<open>json.dumps\<close>\<close>

text \<open>
  \<open>json.dumps\<close> with its default arguments: \<open>ensure_ascii=True\<close>, item separator
  \<open>", "\<close>, key separator \<open>": "\<close>, keys in insertion order.
\<close>

definition hexdigit :: "nat \<Rightarrow> nat" where
  "hexdigit d = (if d < 10 then 48 + d else 87 + d)"

text \<open>\<open>'{0:04x}'.format(n)\<close> for \<open>n < 0x10000\<close>.\<close>

definition hex4 :: "nat \<Rightarrow> pystr" where
  "hex4 n = [hexdigit (n div 4096 mod 16), hexdigit (n div 256 mod 16),
             hexdigit (n div 16 mod 16), hexdigit (n mod 16)]"

text \<open>
  The replacement of one character by \<open>encode_basestring_ascii\<close>: the table
  \<open>ESCAPE_DCT\<close> first, printable ASCII unchanged, every other code point as
  \<open>\uXXXX\<close>, above the basic plane as a surrogate pair
  (\<open>s1 = 0xd800 | ((n >> 10) & 0x3ff)\<close>, \<open>s2 = 0xdc00 | (n & 0x3ff)\<close> for
  \<open>n = ord(c) - 0x10000\<close>).
\<close>

definition escape_char :: "nat \<Rightarrow> pystr" where
  "escape_char c =
     (if c = 0x5C then [0x5C, 0x5C]
      else if c = 0x22 then [0x5C, 0x22]
      else if c = 0x08 then [0x5C, 0x62]
      else if c = 0x0C then [0x5C, 0x66]
      else if c = 0x0A then [0x5C, 0x6E]
      else if c = 0x0D then [0x5C, 0x72]
      else if c = 0x09 then [0x5C, 0x74]
      else if 0x20 \<le> c \<and> c \<le> 0x7E then [c]
      else if c < 0x10000 then [0x5C, 0x75] @ hex4 c
      else (let n = c - 0x10000;
                s1 = 0xD800 + n div 1024 mod 1024;
                s2 = 0xDC00 + n mod 1024
            in [0x5C, 0x75] @ hex4 s1 @ [0x5C, 0x75] @ hex4 s2))"

definition escape_str :: "pystr \<Rightarrow> pystr" where
  "escape_str s = concat (map escape_char s)"

definition encode_basestring_ascii :: "pystr \<Rightarrow> pystr" where
  "encode_basestring_ascii s = [0x22] @ escape_str s @ [0x22]"

text \<open>\<open>int.__repr__\<close>: decimal digits, a minus sign for a negative number.\<close>

fun dec_digits :: "nat \<Rightarrow> pystr" where
  "dec_digits n = (if n < 10 then [48 + n] else dec_digits (n div 10) @ [48 + n mod 10])"

declare dec_digits.simps [simp del]

definition int_repr :: "int \<Rightarrow> pystr" where
  "int_repr i = (if i < 0 then 0x2D # dec_digits (nat (- i)) else dec_digits (nat i))"

text \<open>\<open>sep.join(parts)\<close>.\<close>

fun join_with :: "pystr \<Rightarrow> pystr list \<Rightarrow> pystr" where
  "join_with sep [] = []"
| "join_with sep [p] = p"
| "join_with sep (p # q # ps) = p @ sep @ join_with sep (q # ps)"

fun json_dumps :: "pyval \<Rightarrow> pystr" where
  "json_dumps PyNone = lit ''null''"
| "json_dumps (PyBool b) = (if b then lit ''true'' else lit ''false'')"
| "json_dumps (PyInt i) = int_repr i"
| "json_dumps (PyStr s) = encode_basestring_ascii s"
| "json_dumps (PyList xs) = lit ''['' @ join_with (lit '', '') (map json_dumps xs) @ lit '']''"
| "json_dumps (PyDict kvs) =
     lit ''{'' @
     join_with (lit '', '')
       (map (\<lambda>kv. encode_basestring_ascii (fst kv) @ lit '': '' @ json_dumps (snd kv)) kvs) @
     lit ''}''"

section \<open>The standard library's \<open>json.loads\<close>\<close>

text \<open>
  \<open>json.loads\<close> with its default arguments (strict mode, no hooks), as CPython runs
  it: the scanner of \<open>json/scanner.py\<close> and \<open>json/decoder.py\<close> with the string scanner
  of the C accelerator. Every failure of the parser is a \<open>JSONDecodeError\<close> with one of
  the messages below. A number with a fraction or an exponent and the constants \<open>NaN\<close>,
  \<open>Infinity\<close>, \<open>-Infinity\<close> are Python floats: the parser accepts them, and the model
  reports \<open>Float_unmodelled\<close> in their place. The recursion of the scanner is bounded by
  a fuel that \<open>json_loads\<close> derives from the length of its input; the interpreter's own
  recursion limit, which makes CPython raise \<open>RecursionError\<close> on input nested about a
  thousand levels deep, is not modelled.
\<close>

datatype decode_msg =
    Expecting_value
  | Expecting_property_name
  | Expecting_colon_delimiter
  | Expecting_comma_delimiter
  | Unterminated_string
  | Invalid_control_character
  | Invalid_escape
  | Invalid_uXXXX_escape
  | Extra_data

datatype load_error = JSONDecodeError decode_msg | Float_unmodelled | Fuel_exhausted

definition is_ws :: "nat \<Rightarrow> bool" where
  "is_ws c = (c = 0x20 \<or> c = 0x09 \<or> c = 0x0A \<or> c = 0x0D)"

definition skip_ws :: "pystr \<Rightarrow> pystr" where
  "skip_ws s = dropWhile is_ws s"

definition hexval :: "nat \<Rightarrow> nat option" where
  "hexval c =
     (if 48 \<le> c \<and> c \<le> 57 then Some (c - 48)
      else if 97 \<le> c \<and> c \<le> 102 then Some (c - 87)
      else if 65 \<le> c \<and> c \<le> 70 then Some (c - 55)
      else None)"

text \<open>The four hexadecimal digits after \<open>\u\<close>; \<open>None\<close> stands for "Invalid \uXXXX escape".\<close>

definition decode_uXXXX :: "pystr \<Rightarrow> nat option" where
  "decode_uXXXX s =
     (case s of
        a # b # c # d # _ \<Rightarrow>
          (case (hexval a, hexval b, hexval c, hexval d) of
             (Some x3, Some x2, Some x1, Some x0) \<Rightarrow> Some (x3 * 4096 + x2 * 256 + x1 * 16 + x0)
           | _ \<Rightarrow> None)
      | _ \<Rightarrow> None)"

text \<open>The table \<open>BACKSLASH\<close> of the decoder.\<close>

definition backslash :: "nat \<Rightarrow> nat option" where
  "backslash e =
     (if e = 0x22 then Some 0x22
      else if e = 0x5C then Some 0x5C
      else if e = 0x2F then Some 0x2F
      else if e = 0x62 then Some 0x08
      else if e = 0x66 then Some 0x0C
      else if e = 0x6E then Some 0x0A
      else if e = 0x72 then Some 0x0D
      else if e = 0x74 then Some 0x09
      else None)"

definition is_high_surrogate :: "nat \<Rightarrow> bool" where
  "is_high_surrogate u = (0xD800 \<le> u \<and> u \<le> 0xDBFF)"

definition is_low_surrogate :: "nat \<Rightarrow> bool" where
  "is_low_surrogate u = (0xDC00 \<le> u \<and> u \<le> 0xDFFF)"

text \<open>\<open>0x10000 + (((uni - 0xd800) << 10) | (uni2 - 0xdc00))\<close>, on surrogates.\<close>

definition join_pair :: "nat \<Rightarrow> nat \<Rightarrow> nat" where
  "join_pair uni uni2 = 0x10000 + ((uni - 0xD800) * 1024 + (uni2 - 0xDC00))"

fun append_chr :: "nat \<Rightarrow> load_error + (pystr \<times> pystr) \<Rightarrow> load_error + (pystr \<times> pystr)" where
  "append_chr c (Inl e) = Inl e"
| "append_chr c (Inr (s, rest)) = Inr (c # s, rest)"

text \<open>
  \<open>scanstring\<close>, from the character after the opening quote: the decoded string and
  the input after the closing quote. A \<open>\uXXXX\<close> escape of a high surrogate that is
  followed by a \<open>\uXXXX\<close> escape of a low surrogate yields one code point. As in the C
  scanner, a \<open>\uXXXX\<close> escape that ends the input is an invalid escape (the pure-Python
  \<open>py_scanstring\<close> reports an unterminated string there).
\<close>

fun scanstring :: "pystr \<Rightarrow> load_error + (pystr \<times> pystr)" where
  "scanstring [] = Inl (JSONDecodeError Unterminated_string)"
| "scanstring (c # cs) =
     (if c = 0x22 then Inr ([], cs)
      else if c < 0x20 then Inl (JSONDecodeError Invalid_control_character)
      else if c \<noteq> 0x5C then append_chr c (scanstring cs)
      else
        (case cs of
           [] \<Rightarrow> Inl (JSONDecodeError Unterminated_string)
         | esc # es \<Rightarrow>
             if esc \<noteq> 0x75 then
               (case backslash esc of
                  None \<Rightarrow> Inl (JSONDecodeError Invalid_escape)
                | Some ch \<Rightarrow> append_chr ch (scanstring es))
             else
               (case decode_uXXXX es of
                  None \<Rightarrow> Inl (JSONDecodeError Invalid_uXXXX_escape)
                | Some uni \<Rightarrow>
                    if drop 4 es = [] then Inl (JSONDecodeError Invalid_uXXXX_escape)
                    else if is_high_surrogate uni \<and> take 2 (drop 4 es) = [0x5C, 0x75] then
                      (case decode_uXXXX (drop 6 es) of
                         None \<Rightarrow> Inl (JSONDecodeError Invalid_uXXXX_escape)
                       | Some uni2 \<Rightarrow>
                           if drop 10 es = [] then Inl (JSONDecodeError Invalid_uXXXX_escape)
                           else if is_low_surrogate uni2
                           then append_chr (join_pair uni uni2) (scanstring (drop 10 es))
                           else append_chr uni (scanstring (drop 4 es)))
                    else append_chr uni (scanstring (drop 4 es)))))"

definition is_digit :: "nat \<Rightarrow> bool" where
  "is_digit c = (48 \<le> c \<and> c \<le> 57)"

definition digits_value :: "pystr \<Rightarrow> nat" where
  "digits_value ds = foldl (\<lambda>a d. 10 * a + (d - 48)) 0 ds"

text \<open>
  The integer part \<open>-?(?:0|[1-9][0-9]*)\<close> of \<open>NUMBER_RE\<close>: sign, digits and the rest
  of the input.
\<close>

definition match_integer :: "pystr \<Rightarrow> (bool \<times> pystr \<times> pystr) option" where
  "match_integer s =
     (let neg = (s \<noteq> [] \<and> hd s = 0x2D);
          t = (if neg then tl s else s)
      in case t of
           [] \<Rightarrow> None
         | d # ds \<Rightarrow>
             if d = 48 then Some (neg, [d], ds)
             else if is_digit d then Some (neg, d # takeWhile is_digit ds, dropWhile is_digit ds)
             else None)"

text \<open>The optional groups \<open>(\.[0-9]+)?\<close> and \<open>([eE][-+]?[0-9]+)?\<close>: do they match here?\<close>

definition has_frac :: "pystr \<Rightarrow> bool" where
  "has_frac s = (case s of c # d # _ \<Rightarrow> c = 0x2E \<and> is_digit d | _ \<Rightarrow> False)"

definition skip_frac :: "pystr \<Rightarrow> pystr" where
  "skip_frac s = (if has_frac s then dropWhile is_digit (tl s) else s)"

definition has_exp :: "pystr \<Rightarrow> bool" where
  "has_exp s =
     (case s of
        c # d # ds \<Rightarrow>
          (c = 0x65 \<or> c = 0x45) \<and>
          (is_digit d \<or> ((d = 0x2D \<or> d = 0x2B) \<and> (case ds of [] \<Rightarrow> False | x # _ \<Rightarrow> is_digit x)))
      | _ \<Rightarrow> False)"

text \<open>
  \<open>match_number\<close> and the conversion that follows it in \<open>_scan_once\<close>: \<open>None\<close> when
  the input does not start with a number.
\<close>

definition scan_number :: "pystr \<Rightarrow> (load_error + (pyval \<times> pystr)) option" where
  "scan_number s =
     (case match_integer s of
        None \<Rightarrow> None
      | Some (neg, ds, rest) \<Rightarrow>
          if has_frac rest \<or> has_exp (skip_frac rest) then Some (Inl Float_unmodelled)
          else Some (Inr (PyInt (if neg then - int (digits_value ds) else int (digits_value ds)), rest)))"

text \<open>
  \<open>_scan_once\<close> with \<open>JSONObject\<close> and \<open>JSONArray\<close>. \<open>object_loop\<close> and \<open>array_loop\<close>
  are the \<open>while True\<close> loops of the two; \<open>object_loop\<close> starts after the opening quote
  of a key, \<open>array_loop\<close> at a value. Both return what they appended.
\<close>

fun scan_once :: "nat \<Rightarrow> pystr \<Rightarrow> load_error + (pyval \<times> pystr)"
  and object_loop :: "nat \<Rightarrow> pystr \<Rightarrow> load_error + ((pystr \<times> pyval) list \<times> pystr)"
  and array_loop :: "nat \<Rightarrow> pystr \<Rightarrow> load_error + (pyval list \<times> pystr)"
where
  "scan_once 0 s = Inl Fuel_exhausted"
| "scan_once (Suc n) [] = Inl (JSONDecodeError Expecting_value)"
| "scan_once (Suc n) (c # cs) =
     (if c = 0x22 then
        (case scanstring cs of Inl e \<Rightarrow> Inl e | Inr (str, rest) \<Rightarrow> Inr (PyStr str, rest))
      else if c = 0x7B then
        (case skip_ws cs of
           [] \<Rightarrow> Inl (JSONDecodeError Expecting_property_name)
         | nextchar # r \<Rightarrow>
             if nextchar = 0x7D then Inr (PyDict [], r)
             else if nextchar \<noteq> 0x22 then Inl (JSONDecodeError Expecting_property_name)
             else
               (case object_loop n r of
                  Inl e \<Rightarrow> Inl e
                | Inr (pairs, rest) \<Rightarrow> Inr (PyDict (dict_of_pairs pairs), rest)))
      else if c = 0x5B then
        (case skip_ws cs of
           [] \<Rightarrow> Inl (JSONDecodeError Expecting_value)
         | nextchar # r \<Rightarrow>
             if nextchar = 0x5D then Inr (PyList [], r)
             else
               (case array_loop n (nextchar # r) of
                  Inl e \<Rightarrow> Inl e
                | Inr (values, rest) \<Rightarrow> Inr (PyList values, rest)))
      else if c = 0x6E \<and> take 4 (c # cs) = lit ''null'' then Inr (PyNone, drop 4 (c # cs))
      else if c = 0x74 \<and> take 4 (c # cs) = lit ''true'' then Inr (PyBool True, drop 4 (c # cs))
      else if c = 0x66 \<and> take 5 (c # cs) = lit ''false'' then Inr (PyBool False, drop 5 (c # cs))
      else
        (case scan_number (c # cs) of
           Some res \<Rightarrow> res
         | None \<Rightarrow>
             if c = 0x4E \<and> take 3 (c # cs) = lit ''NaN'' then Inl Float_unmodelled
             else if c = 0x49 \<and> take 8 (c # cs) = lit ''Infinity'' then Inl Float_unmodelled
             else if c = 0x2D \<and> take 9 (c # cs) = lit ''-Infinity'' then Inl Float_unmodelled
             else Inl (JSONDecodeError Expecting_value)))"
| "object_loop 0 s = Inl Fuel_exhausted"
| "object_loop (Suc n) s =
     (case scanstring s of
        Inl e \<Rightarrow> Inl e
      | Inr (key, r1) \<Rightarrow>
          (case skip_ws r1 of
             [] \<Rightarrow> Inl (JSONDecodeError Expecting_colon_delimiter)
           | colon # r2 \<Rightarrow>
               if colon \<noteq> 0x3A then Inl (JSONDecodeError Expecting_colon_delimiter)
               else
                 (case scan_once n (skip_ws r2) of
                    Inl e \<Rightarrow> Inl e
                  | Inr (val, r3) \<Rightarrow>
                      (case skip_ws r3 of
                         [] \<Rightarrow> Inl (JSONDecodeError Expecting_comma_delimiter)
                       | nextchar # r4 \<Rightarrow>
                           if nextchar = 0x7D then Inr ([(key, val)], r4)
                           else if nextchar \<noteq> 0x2C then
                             Inl (JSONDecodeError Expecting_comma_delimiter)
                           else
                             (case skip_ws r4 of
                                [] \<Rightarrow> Inl (JSONDecodeError Expecting_property_name)
                              | quote # r5 \<Rightarrow>
                                  if quote \<noteq> 0x22 then
                                    Inl (JSONDecodeError Expecting_property_name)
                                  else
                                    (case object_loop n r5 of
                                       Inl e \<Rightarrow> Inl e
                                     | Inr (pairs, rest) \<Rightarrow> Inr ((key, val) # pairs, rest)))))))"
| "array_loop 0 s = Inl Fuel_exhausted"
| "array_loop (Suc n) s =
     (case scan_once n s of
        Inl e \<Rightarrow> Inl e
      | Inr (val, r1) \<Rightarrow>
          (case skip_ws r1 of
             [] \<Rightarrow> Inl (JSONDecodeError Expecting_comma_delimiter)
           | nextchar # r2 \<Rightarrow>
               if nextchar = 0x5D then Inr ([val], r2)
               else if nextchar \<noteq> 0x2C then Inl (JSONDecodeError Expecting_comma_delimiter)
               else
                 (case array_loop n (skip_ws r2) of
                    Inl e \<Rightarrow> Inl e
                  | Inr (vals, rest) \<Rightarrow> Inr (val # vals, rest))))"

text \<open>
  \<open>JSONDecoder.decode\<close>: leading white space, one value, trailing white space, and
  nothing else.
\<close>

definition json_loads :: "pystr \<Rightarrow> load_error + pyval" where
  "json_loads s =
     (case scan_once (2 * length s + 1) (skip_ws s) of
        Inl e \<Rightarrow> Inl e
      | Inr (obj, rest) \<Rightarrow>
          if skip_ws rest = [] then Inr obj else Inl (JSONDecodeError Extra_data))"

section \<open>The fixture generator\<close>

text \<open>
  \<open>create_test_message(request_id, scenario)\<close> of \<open>scripts/test-pubsub.py\<close>. The
  scenario is a free-form string; the final \<open>else\<close> raises \<open>ValueError\<close>.
\<close>

datatype py_exception = ValueError pystr

definition normal_message :: "pystr \<Rightarrow> pyval" where
  "normal_message request_id = PyDict
     [(lit ''request_id'', PyStr request_id),
      (lit ''verification_results'', PyDict
         [(lit ''recaptcha_score'', PyInt 7500),
          (lit ''sms_verified'', PyInt 1),
          (lit ''bio_verified'', PyInt 1)]),
      (lit ''public_inputs'', PyDict
         [(lit ''w1'', PyInt 1500),
          (lit ''w2'', PyInt 2000),
          (lit ''w3'', PyInt 2500),
          (lit ''w4'', PyInt 4000),
          (lit ''expected_output'', PyInt 204)])]"

definition boundary_message :: "pystr \<Rightarrow> pyval" where
  "boundary_message request_id = PyDict
     [(lit ''request_id'', PyStr request_id),
      (lit ''verification_results'', PyDict
         [(lit ''recaptcha_score'', PyInt 10000),
          (lit ''sms_verified'', PyInt 1),
          (lit ''bio_verified'', PyInt 1)]),
      (lit ''public_inputs'', PyDict
         [(lit ''w1'', PyInt 1500),
          (lit ''w2'', PyInt 2000),
          (lit ''w3'', PyInt 2500),
          (lit ''w4'', PyInt 4000),
          (lit ''expected_output'', PyInt 255)])]"

definition missing_fields_message :: "pystr \<Rightarrow> pyval" where
  "missing_fields_message request_id = PyDict
     [(lit ''request_id'', PyStr request_id),
      (lit ''verification_results'', PyDict
         [(lit ''recaptcha_score'', PyInt 7500),
          (lit ''sms_verified'', PyInt 1)]),
      (lit ''public_inputs'', PyDict
         [(lit ''w1'', PyInt 1500),
          (lit ''w2'', PyInt 2000),
          (lit ''w3'', PyInt 2500),
          (lit ''w4'', PyInt 4000),
          (lit ''expected_output'', PyInt 204)])]"

definition create_test_message :: "pystr \<Rightarrow> pystr \<Rightarrow> py_exception + pystr" where
  "create_test_message request_id scenario =
     (if scenario = lit ''normal'' then Inr (json_dumps (normal_message request_id))
      else if scenario = lit ''boundary'' then Inr (json_dumps (boundary_message request_id))
      else if scenario = lit ''invalid_json'' then Inr (lit ''{ invalid json }'')
      else if scenario = lit ''missing_fields'' then
        Inr (json_dumps (missing_fields_message request_id))
      else Inl (ValueError (lit ''Unknown scenario: '' @ scenario)))"

text \<open>Generating a payload and handing it to \<open>json.loads\<close>, as a consumer does.\<close>

definition generate_and_load :: "pystr \<Rightarrow> pystr \<Rightarrow> pyval option" where
  "generate_and_load request_id scenario =
     (case create_test_message request_id scenario of
        Inl e \<Rightarrow> None
      | Inr payload \<Rightarrow> (case json_loads payload of Inl e \<Rightarrow> None | Inr obj \<Rightarrow> Some obj))"

text \<open>The \<open>request_id\<close> entry that a consumer reads from the parsed payload.\<close>

definition payload_request_id :: "pystr \<Rightarrow> pystr \<Rightarrow> pyval option" where
  "payload_request_id request_id scenario =
     (case generate_and_load request_id scenario of
        None \<Rightarrow> None
      | Some obj \<Rightarrow> dict_get obj (lit ''request_id''))"

section \<open>The scoring formula\<close>

text \<open>
  Modelled from the spec: the weighted sum of the scoring formula of the prover that
  consumes the fixtures. The prover is not part of \<open>scripts/test-pubsub.py\<close>, whose
  docstring only quotes the formula:
  \<open>floor((W1 + W2 * recaptchaScore + W3 * smsVerified + W4 * bioVerified) * 255 / SCALE)\<close>
  with every decimal value scaled by 10,000. The sum
  \<open>w1 + w2 * recaptcha / 10000 + w3 * sms + w4 * bio\<close> is exact, a rational number.
\<close>

definition weighted_sum :: "int \<Rightarrow> int \<Rightarrow> int \<Rightarrow> int \<Rightarrow> int \<Rightarrow> int \<Rightarrow> int \<Rightarrow> rat" where
  "weighted_sum w1 w2 w3 w4 recaptcha sms bio =
     of_int w1 + of_int w2 * of_int recaptcha / 10000 + of_int w3 * of_int sms + of_int w4 * of_int bio"

text \<open>
  Modelled from the spec: the scoring formula of the prover (not part of the script),
  \<open>floor(weighted sum * 255 / 10000)\<close>, with the one truncation at the end.
\<close>

definition expected_score :: "int \<Rightarrow> int \<Rightarrow> int \<Rightarrow> int \<Rightarrow> int \<Rightarrow> int \<Rightarrow> int \<Rightarrow> int" where
  "expected_score w1 w2 w3 w4 recaptcha sms bio =
     \<lfloor>weighted_sum w1 w2 w3 w4 recaptcha sms bio * 255 / 10000\<rfloor>"

text \<open>
  Modelled from the spec: the same formula of the prover (not part of the script) in
  integer arithmetic with explicit scaling, the sum taken over the denominator 10,000
  and one integer division at the end.
\<close>

definition expected_score_int :: "int \<Rightarrow> int \<Rightarrow> int \<Rightarrow> int \<Rightarrow> int \<Rightarrow> int \<Rightarrow> int \<Rightarrow> int" where
  "expected_score_int w1 w2 w3 w4 recaptcha sms bio =
     ((10000 * w1 + w2 * recaptcha + 10000 * w3 * sms + 10000 * w4 * bio) * 255) div 100000000"

text \<open>An integer field of a dictionary inside a message.\<close>

definition int_field :: "pyval \<Rightarrow> pystr \<Rightarrow> pystr \<Rightarrow> int option" where
  "int_field m section name =
     (case dict_get m section of
        Some d \<Rightarrow> (case dict_get d name of Some (PyInt i) \<Rightarrow> Some i | _ \<Rightarrow> None)
      | None \<Rightarrow> None)"

text \<open>
  The invariant of the data model on a parsed request: all eight integer fields are
  present and \<open>expected_output\<close> is the formula's value on the other seven.
\<close>

definition request_invariant :: "pyval \<Rightarrow> bool" where
  "request_invariant m =
     (case (int_field m (lit ''public_inputs'') (lit ''w1''),
            int_field m (lit ''public_inputs'') (lit ''w2''),
            int_field m (lit ''public_inputs'') (lit ''w3''),
            int_field m (lit ''public_inputs'') (lit ''w4''),
            int_field m (lit ''verification_results'') (lit ''recaptcha_score''),
            int_field m (lit ''verification_results'') (lit ''sms_verified''),
            int_field m (lit ''verification_results'') (lit ''bio_verified''),
            int_field m (lit ''public_inputs'') (lit ''expected_output'')) of
        (Some w1, Some w2, Some w3, Some w4, Some r, Some s, Some b, Some e) \<Rightarrow>
          e = expected_score w1 w2 w3 w4 r s b
      | _ \<Rightarrow> False)"

section \<open>Strings through \<open>json.dumps\<close> and \<open>json.loads\<close>\<close>

text \<open>
  What \<open>json.loads\<close> returns for the encoding of a string: a high surrogate that is
  immediately followed by a low surrogate comes back as the one code point the two
  encode.
\<close>

fun join_surrogates :: "pystr \<Rightarrow> pystr" where
  "join_surrogates (h # l # cs) =
     (if is_high_surrogate h \<and> is_low_surrogate l then join_pair h l # join_surrogates cs
      else h # join_surrogates (l # cs))"
| "join_surrogates [c] = [c]"
| "join_surrogates [] = []"

fun has_surrogate_pair :: "pystr \<Rightarrow> bool" where
  "has_surrogate_pair (h # l # cs) =
     (if is_high_surrogate h \<and> is_low_surrogate l then True else has_surrogate_pair (l # cs))"
| "has_surrogate_pair [c] = False"
| "has_surrogate_pair [] = False"

text \<open>
  What may follow the escape of a lone high surrogate for the scanner to leave it
  alone: no \<open>\u\<close> escape, or one of a code point that is no low surrogate, with
  more input after it.
\<close>

definition tail_ok :: "pystr \<Rightarrow> bool" where
  "tail_ok t =
     (take 2 t \<noteq> [0x5C, 0x75] \<or>
      (\<exists>u. decode_uXXXX (drop 2 t) = Some u \<and> \<not> is_low_surrogate u \<and> drop 6 t \<noteq> []))"

section \<open>Decoding an encoded string\<close>

lemma hexval_hexdigit: "d < 16 \<Longrightarrow> hexval (hexdigit d) = Some d"
  by (auto simp: hexval_def hexdigit_def)

lemma radix16_aux:
  fixes n q1 q2 q3 a b c :: nat
  assumes "n = 16 * q1 + a" "q1 = 16 * q2 + b" "q2 = 16 * q3 + c"
  shows "q3 * 4096 + c * 256 + b * 16 + a = n"
  using assms by simp

lemma hex4_value:
  fixes n :: nat
  assumes "n < 65536"
  shows "(n div 4096 mod 16) * 4096 + (n div 256 mod 16) * 256 + (n div 16 mod 16) * 16 + n mod 16 = n"
proof -
  have d2: "n div 256 = n div 16 div 16" and d3: "n div 4096 = n div 16 div 16 div 16"
    by (simp_all add: div_mult2_eq[symmetric])
  have "n div 4096 < 16" using assms by simp
  then have e4: "n div 4096 mod 16 = n div 16 div 16 div 16" using d3 by simp
  have "n div 16 div 16 div 16 * 4096 + (n div 16 div 16 mod 16) * 256 + (n div 16 mod 16) * 16 + n mod 16 = n"
    by (rule radix16_aux) simp_all
  then show ?thesis unfolding e4 d2 .
qed

lemma hex4_value':
  fixes n :: nat
  assumes "n < 65536"
  shows "n div 4096 * 4096 + (n div 256 mod 16) * 256 + (n div 16 mod 16) * 16 + n mod 16 = n"
proof -
  have "n div 4096 < 16" using assms by simp
  then have "n div 4096 mod 16 = n div 4096" by simp
  with hex4_value [OF assms] show ?thesis by simp
qed

lemma length_hex4 [simp]: "length (hex4 n) = 4"
  by (simp add: hex4_def)

lemma decode_hex4: "n < 65536 \<Longrightarrow> decode_uXXXX (hex4 n @ t) = Some n"
  by (simp add: decode_uXXXX_def hex4_def hexval_hexdigit hex4_value')

lemma drop_hex4_more: "drop 10 (hex4 n @ a # b # hex4 m @ t) = t"
  by (simp add: hex4_def)

lemma scan_u_plain:
  "n < 65536 \<Longrightarrow> \<not> is_high_surrogate n \<Longrightarrow> t \<noteq> [] \<Longrightarrow>
   scanstring (0x5C # 0x75 # hex4 n @ t) = append_chr n (scanstring t)"
  by (simp add: decode_hex4)

lemma scan_u_pair:
  "is_high_surrogate h \<Longrightarrow> is_low_surrogate l \<Longrightarrow> t \<noteq> [] \<Longrightarrow>
   scanstring (0x5C # 0x75 # hex4 h @ 0x5C # 0x75 # hex4 l @ t) = append_chr (join_pair h l) (scanstring t)"
  by (simp add: decode_hex4 drop_hex4_more is_high_surrogate_def is_low_surrogate_def)

lemma scan_u_lone_high:
  "is_high_surrogate h \<Longrightarrow> tail_ok t \<Longrightarrow> t \<noteq> [] \<Longrightarrow>
   scanstring (0x5C # 0x75 # hex4 h @ t) = append_chr h (scanstring t)"
  by (auto simp add: decode_hex4 drop_hex4_more is_high_surrogate_def tail_ok_def)

lemma scan_escape_char:
  assumes "c < 0x110000" "\<not> is_high_surrogate c" "t \<noteq> []"
  shows "scanstring (escape_char c @ t) = append_chr c (scanstring t)"
proof -
  consider (tab) "c \<in> {0x5C, 0x22, 0x08, 0x0C, 0x0A, 0x0D, 0x09}"
    | (plain) "c \<notin> {0x5C, 0x22, 0x08, 0x0C, 0x0A, 0x0D, 0x09}" "0x20 \<le> c" "c \<le> 0x7E"
    | (bmp) "c \<notin> {0x5C, 0x22, 0x08, 0x0C, 0x0A, 0x0D, 0x09}" "\<not> (0x20 \<le> c \<and> c \<le> 0x7E)" "c < 0x10000"
    | (astral) "0x10000 \<le> c"
    by fastforce
  then show ?thesis
  proof cases
    case tab
    then show ?thesis by (elim insertE emptyE; simp add: escape_char_def backslash_def)
  next
    case plain
    then show ?thesis by (simp add: escape_char_def)
  next
    case bmp
    then have "escape_char c = 0x5C # 0x75 # hex4 c" by (simp add: escape_char_def)
    with bmp assms show ?thesis by (simp add: scan_u_plain del: scanstring.simps)
  next
    case astral
    let ?n = "c - 0x10000"
    let ?s1 = "0xD800 + ?n div 1024"
    let ?s2 = "0xDC00 + ?n mod 1024"
    have e: "escape_char c = 0x5C # 0x75 # hex4 ?s1 @ 0x5C # 0x75 # hex4 ?s2"
      using astral assms(1) by (simp add: escape_char_def Let_def)
    have h: "is_high_surrogate ?s1" and l: "is_low_surrogate ?s2"
      using astral assms(1) by (simp_all add: is_high_surrogate_def is_low_surrogate_def)
    have j: "join_pair ?s1 ?s2 = c"
      using astral assms(1) by (simp add: join_pair_def)
    show ?thesis using scan_u_pair [OF h l assms(3)] by (simp add: e j del: scanstring.simps)
  qed
qed

lemma tail_okI1: "take 2 t \<noteq> [0x5C, 0x75] \<Longrightarrow> tail_ok t"
  by (simp add: tail_ok_def)

lemma tail_okI2:
  "take 2 t = [0x5C, 0x75] \<Longrightarrow> decode_uXXXX (drop 2 t) = Some u \<Longrightarrow>
   \<not> is_low_surrogate u \<Longrightarrow> drop 6 t \<noteq> [] \<Longrightarrow> tail_ok t"
  by (auto simp add: tail_ok_def)

lemma tail_ok_quote: "tail_ok (0x22 # t)"
  by (rule tail_okI1) simp

lemma tail_ok_escape:
  assumes "c < 0x110000" "\<not> is_low_surrogate c" "t \<noteq> []"
  shows "tail_ok (escape_char c @ t)"
proof -
  consider (tab) "c \<in> {0x5C, 0x22, 0x08, 0x0C, 0x0A, 0x0D, 0x09}"
    | (plain) "c \<notin> {0x5C, 0x22, 0x08, 0x0C, 0x0A, 0x0D, 0x09}" "0x20 \<le> c" "c \<le> 0x7E"
    | (bmp) "c \<notin> {0x5C, 0x22, 0x08, 0x0C, 0x0A, 0x0D, 0x09}" "\<not> (0x20 \<le> c \<and> c \<le> 0x7E)" "c < 0x10000"
    | (astral) "0x10000 \<le> c"
    by fastforce
  then show ?thesis
  proof cases
    case tab
    then have "take 2 (escape_char c @ t) \<noteq> [0x5C, 0x75]"
      by (elim insertE emptyE; simp add: escape_char_def)
    then show ?thesis by (rule tail_okI1)
  next
    case plain
    then have "take 2 (escape_char c @ t) \<noteq> [0x5C, 0x75]"
      by (simp add: escape_char_def)
    then show ?thesis by (rule tail_okI1)
  next
    case bmp
    then have "escape_char c = 0x5C # 0x75 # hex4 c" by (simp add: escape_char_def)
    with bmp assms show ?thesis by (intro tail_okI2 [where u = c]) (simp_all add: decode_hex4)
  next
    case astral
    let ?n = "c - 0x10000"
    let ?s1 = "0xD800 + ?n div 1024"
    let ?s2 = "0xDC00 + ?n mod 1024"
    have e: "escape_char c = 0x5C # 0x75 # hex4 ?s1 @ 0x5C # 0x75 # hex4 ?s2"
      using astral assms(1) by (simp add: escape_char_def Let_def)
    have "?s1 < 65536" "\<not> is_low_surrogate ?s1"
      using astral assms(1) by (simp_all add: is_low_surrogate_def)
    then show ?thesis by (intro tail_okI2 [where u = "?s1"]) (simp_all add: e decode_hex4)
  qed
qed

lemma scanstring_escape_str:
  "pystr_ok s \<Longrightarrow> scanstring (escape_str s @ 0x22 # rest) = Inr (join_surrogates s, rest)"
proof (induction s rule: join_surrogates.induct)
  case (1 h l cs)
  from "1.prems" have ok: "h < 0x110000" "l < 0x110000" "pystr_ok cs" "pystr_ok (l # cs)"
    by (simp_all add: pystr_ok_def)
  show ?case
  proof (cases "is_high_surrogate h")
    case False
    with ok "1.IH"(2) show ?thesis
      by (simp add: escape_str_def scan_escape_char del: scanstring.simps)
  next
    case high: True
    show ?thesis
    proof (cases "is_low_surrogate l")
      case True
      from high have eh: "escape_char h = 0x5C # 0x75 # hex4 h"
        by (simp add: escape_char_def is_high_surrogate_def)
      from True have el: "escape_char l = 0x5C # 0x75 # hex4 l"
        by (simp add: escape_char_def is_low_surrogate_def)
      from high True ok "1.IH"(1) show ?thesis
        using scan_u_pair [OF high True, of "escape_str cs @ 0x22 # rest"]
        by (simp add: escape_str_def eh el del: scanstring.simps)
    next
      case False
      from high have eh: "escape_char h = 0x5C # 0x75 # hex4 h"
        by (simp add: escape_char_def is_high_surrogate_def)
      have "tail_ok (escape_char l @ escape_str cs @ 0x22 # rest)"
        by (rule tail_ok_escape) (use ok False in simp_all)
      from scan_u_lone_high [OF high this] high False ok "1.IH"(2) show ?thesis
        by (simp add: escape_str_def eh del: scanstring.simps)
    qed
  qed
next
  case 3
  show ?case by (simp add: escape_str_def)
next
  case (2 c)
  then have ok: "c < 0x110000" by (simp add: pystr_ok_def)
  show ?case
  proof (cases "is_high_surrogate c")
    case False
    with ok show ?thesis by (simp add: escape_str_def scan_escape_char del: scanstring.simps) simp
  next
    case True
    then have eh: "escape_char c = 0x5C # 0x75 # hex4 c"
      by (simp add: escape_char_def is_high_surrogate_def)
    from scan_u_lone_high [OF True tail_ok_quote, of rest] show ?thesis
      by (simp add: escape_str_def eh del: scanstring.simps) simp
  qed
qed

section \<open>Parsing the generated payloads\<close>

lemma escape_str_simps: "escape_str [] = []" "escape_str (c # cs) = escape_char c @ escape_str cs"
  by (simp_all add: escape_str_def)

lemma normal_payload:
  "json_dumps (normal_message rid) =
     lit ''{\"request_id\": \"'' @ escape_str rid @
     lit ''\", \"verification_results\": {\"recaptcha_score\": 7500, \"sms_verified\": 1, \"bio_verified\": 1}, \"public_inputs\": {\"w1\": 1500, \"w2\": 2000, \"w3\": 2500, \"w4\": 4000, \"expected_output\": 204}}''"
  by (simp add: normal_message_def encode_basestring_ascii_def escape_str_simps escape_char_def
      lit_def int_repr_def dec_digits.simps)

lemma fuel_ge_12:
  assumes "12 \<le> (f::nat)"
  obtains m where "f = Suc (Suc (Suc (Suc (Suc (Suc (Suc (Suc (Suc (Suc (Suc (Suc m)))))))))))"
proof
  show "f = Suc (Suc (Suc (Suc (Suc (Suc (Suc (Suc (Suc (Suc (Suc (Suc (f - 12))))))))))))"
    using assms by arith
qed

lemma boundary_payload:
  "json_dumps (boundary_message rid) =
     lit ''{\"request_id\": \"'' @ escape_str rid @
     lit ''\", \"verification_results\": {\"recaptcha_score\": 10000, \"sms_verified\": 1, \"bio_verified\": 1}, \"public_inputs\": {\"w1\": 1500, \"w2\": 2000, \"w3\": 2500, \"w4\": 4000, \"expected_output\": 255}}''"
  by (simp add: boundary_message_def encode_basestring_ascii_def escape_str_simps escape_char_def
      lit_def int_repr_def dec_digits.simps)

lemma missing_fields_payload:
  "json_dumps (missing_fields_message rid) =
     lit ''{\"request_id\": \"'' @ escape_str rid @
     lit ''\", \"verification_results\": {\"recaptcha_score\": 7500, \"sms_verified\": 1}, \"public_inputs\": {\"w1\": 1500, \"w2\": 2000, \"w3\": 2500, \"w4\": 4000, \"expected_output\": 204}}''"
  by (simp add: missing_fields_message_def encode_basestring_ascii_def escape_str_simps escape_char_def
      lit_def int_repr_def dec_digits.simps)

lemmas scan_eval =
  lit_def skip_ws_def is_ws_def scan_number_def match_integer_def is_digit_def has_frac_def
  has_exp_def skip_frac_def digits_value_def dict_of_pairs_def

lemma normal_scan:
  assumes "pystr_ok rid" "12 \<le> f"
  shows "scan_once f (json_dumps (normal_message rid)) = Inr (normal_message (join_surrogates rid), [])"
proof -
  from assms(2) obtain m where f: "f = Suc (Suc (Suc (Suc (Suc (Suc (Suc (Suc (Suc (Suc (Suc (Suc m)))))))))))"
    by (rule fuel_ge_12)
  show ?thesis
    unfolding normal_payload f
    by (simp add: scan_eval scanstring_escape_str [OF assms(1)] normal_message_def)
qed

lemma boundary_scan:
  assumes "pystr_ok rid" "12 \<le> f"
  shows "scan_once f (json_dumps (boundary_message rid)) = Inr (boundary_message (join_surrogates rid), [])"
proof -
  from assms(2) obtain m where f: "f = Suc (Suc (Suc (Suc (Suc (Suc (Suc (Suc (Suc (Suc (Suc (Suc m)))))))))))"
    by (rule fuel_ge_12)
  show ?thesis
    unfolding boundary_payload f
    by (simp add: scan_eval scanstring_escape_str [OF assms(1)] boundary_message_def)
qed

lemma missing_fields_scan:
  assumes "pystr_ok rid" "12 \<le> f"
  shows "scan_once f (json_dumps (missing_fields_message rid)) =
         Inr (missing_fields_message (join_surrogates rid), [])"
proof -
  from assms(2) obtain m where f: "f = Suc (Suc (Suc (Suc (Suc (Suc (Suc (Suc (Suc (Suc (Suc (Suc m)))))))))))"
    by (rule fuel_ge_12)
  show ?thesis
    unfolding missing_fields_payload f
    by (simp add: scan_eval scanstring_escape_str [OF assms(1)] missing_fields_message_def)
qed

lemma skip_ws_brace: "skip_ws (0x7B # s) = 0x7B # s"
  by (simp add: skip_ws_def is_ws_def)

lemma normal_loads:
  assumes "pystr_ok rid"
  shows "json_loads (json_dumps (normal_message rid)) = Inr (normal_message (join_surrogates rid))"
proof -
  have shape: "skip_ws (json_dumps (normal_message rid)) = json_dumps (normal_message rid)"
    and len: "12 \<le> 2 * length (json_dumps (normal_message rid)) + 1"
    unfolding normal_payload by (simp_all add: lit_def skip_ws_brace)
  note scan = normal_scan [OF assms len]
  show ?thesis
    by (simp only: json_loads_def shape scan) (simp add: skip_ws_def)
qed

lemma boundary_loads:
  assumes "pystr_ok rid"
  shows "json_loads (json_dumps (boundary_message rid)) = Inr (boundary_message (join_surrogates rid))"
proof -
  have shape: "skip_ws (json_dumps (boundary_message rid)) = json_dumps (boundary_message rid)"
    and len: "12 \<le> 2 * length (json_dumps (boundary_message rid)) + 1"
    unfolding boundary_payload by (simp_all add: lit_def skip_ws_brace)
  note scan = boundary_scan [OF assms len]
  show ?thesis
    by (simp only: json_loads_def shape scan) (simp add: skip_ws_def)
qed

lemma missing_fields_loads:
  assumes "pystr_ok rid"
  shows "json_loads (json_dumps (missing_fields_message rid)) =
         Inr (missing_fields_message (join_surrogates rid))"
proof -
  have shape: "skip_ws (json_dumps (missing_fields_message rid)) = json_dumps (missing_fields_message rid)"
    and len: "12 \<le> 2 * length (json_dumps (missing_fields_message rid)) + 1"
    unfolding missing_fields_payload by (simp_all add: lit_def skip_ws_brace)
  note scan = missing_fields_scan [OF assms len]
  show ?thesis
    by (simp only: json_loads_def shape scan) (simp add: skip_ws_def)
qed

lemma invalid_json_scan:
  "scan_once (Suc n) (lit ''{ invalid json }'') = Inl (JSONDecodeError Expecting_property_name)"
  by (simp add: lit_def skip_ws_def is_ws_def)

lemma invalid_json_loads:
  "json_loads (lit ''{ invalid json }'') = Inl (JSONDecodeError Expecting_property_name)"
proof -
  have fuel: "2 * length (lit ''{ invalid json }'') + 1 = Suc 32"
    and shape: "skip_ws (lit ''{ invalid json }'') = lit ''{ invalid json }''"
    by (simp_all add: lit_def skip_ws_brace)
  show ?thesis
    by (simp only: json_loads_def fuel shape invalid_json_scan) simp
qed

text \<open>A string alone, through \<open>json.dumps\<close> and \<open>json.loads\<close>.\<close>

lemma loads_dumps_str:
  assumes "pystr_ok s"
  shows "json_loads (json_dumps (PyStr s)) = Inr (PyStr (join_surrogates s))"
proof -
  have scan: "scan_once (Suc n) (0x22 # escape_str s @ [0x22]) = Inr (PyStr (join_surrogates s), [])" for n
    using scanstring_escape_str [OF assms, of "[]"] by simp
  have fuel: "2 * length (0x22 # escape_str s @ [0x22]) + 1 = Suc (2 * length (0x22 # escape_str s @ [0x22]))"
    by simp
  have shape: "skip_ws (0x22 # escape_str s @ [0x22]) = 0x22 # escape_str s @ [0x22]"
    by (simp add: skip_ws_def is_ws_def)
  have "json_loads (0x22 # escape_str s @ [0x22]) = Inr (PyStr (join_surrogates s))"
    by (simp only: json_loads_def shape fuel scan) (simp add: skip_ws_def)
  then show ?thesis by (simp add: encode_basestring_ascii_def)
qed

section \<open>The scanner consumes input and its fuel suffices\<close>

text \<open>
  Every successful scan returns a strictly shorter rest, and a fuel of more than twice the
  length of the input is never used up: \<open>json_loads\<close> never answers \<open>Fuel_exhausted\<close>,
  so the fuel only makes the recursion of the scanner well-founded.
\<close>

lemma append_chr_Inr:
  "append_chr c res = Inr (x, r) \<Longrightarrow> \<exists>x'. res = Inr (x', r) \<and> x = c # x'"
  by (cases res) auto

lemma scanstring_rest: "scanstring s = Inr (x, r) \<Longrightarrow> length r < length s"
proof (induction s arbitrary: x rule: scanstring.induct)
  case 1
  then show ?case by simp
next
  case (2 c cs)
  show ?case
  proof (cases "c = 0x22")
    case True
    with "2.prems" show ?thesis by simp
  next
    case nq: False
    show ?thesis
    proof (cases "c = 0x5C")
      case False
      with nq "2.prems" obtain x' where "scanstring cs = Inr (x', r)"
        by (auto split: if_splits dest: append_chr_Inr)
      with "2.IH"(1) nq False "2.prems" show ?thesis
        by (fastforce split: if_splits)
    next
      case bs: True
      with nq "2.prems" obtain esc es where cs: "cs = esc # es"
        by (auto split: if_splits list.splits)
      show ?thesis
      proof (cases "esc = 0x75")
        case False
        with nq bs cs "2.prems" obtain ch x' where "backslash esc = Some ch" "scanstring es = Inr (x', r)"
          by (auto split: if_splits option.splits dest: append_chr_Inr)
        with "2.IH"(2) [of esc es ch x'] nq bs cs False show ?thesis
          by simp
      next
        case u: True
        with nq bs cs "2.prems" obtain uni where uni: "decode_uXXXX es = Some uni"
          by (auto split: if_splits option.splits)
        from nq bs cs u uni "2.prems"
        consider (pair) uni2 x' where "is_high_surrogate uni \<and> take 2 (drop 4 es) = [0x5C, 0x75]"
            "decode_uXXXX (drop 6 es) = Some uni2" "is_low_surrogate uni2"
            "scanstring (drop 10 es) = Inr (x', r)" "drop 4 es \<noteq> []" "drop 10 es \<noteq> []"
          | (lone) uni2 x' where "is_high_surrogate uni \<and> take 2 (drop 4 es) = [0x5C, 0x75]"
            "decode_uXXXX (drop 6 es) = Some uni2" "\<not> is_low_surrogate uni2"
            "scanstring (drop 4 es) = Inr (x', r)" "drop 4 es \<noteq> []" "drop 10 es \<noteq> []"
          | (plain) x' where "\<not> (is_high_surrogate uni \<and> take 2 (drop 4 es) = [0x5C, 0x75])"
            "scanstring (drop 4 es) = Inr (x', r)" "drop 4 es \<noteq> []"
          by (auto split: if_splits option.splits dest!: append_chr_Inr)
        then show ?thesis
        proof cases
          case pair
          with "2.IH"(3) [of esc es uni uni2 x'] nq bs cs u uni
          show ?thesis by simp
        next
          case lone
          with "2.IH"(4) [of esc es uni uni2 x'] nq bs cs u uni
          show ?thesis by simp
        next
          case plain
          with "2.IH"(5) [of esc es uni x'] nq bs cs u uni
          show ?thesis by simp
        qed
      qed
    qed
  qed
qed


lemma length_skip_ws: "length (skip_ws s) \<le> length s"
  by (simp add: skip_ws_def length_dropWhile_le)

lemma skip_ws_Cons_length: "skip_ws s = c # r \<Longrightarrow> length r < length s"
  using length_skip_ws [of s] by simp

lemma match_integer_rest: "match_integer s = Some (neg, ds, r) \<Longrightarrow> length r < length s"
proof -
  have d: "length (dropWhile is_digit t) \<le> length t" for t
    by (rule length_dropWhile_le)
  assume "match_integer s = Some (neg, ds, r)"
  then show ?thesis
    using d [of "tl (tl s)"] d [of "tl s"]
    by (cases s; cases "tl s")
       (auto simp: match_integer_def Let_def split: if_splits list.splits)
qed

lemma scan_number_rest: "scan_number s = Some (Inr (v, r)) \<Longrightarrow> length r < length s"
  by (auto simp: scan_number_def split: option.splits if_splits dest: match_integer_rest)

lemma scan_once_step_rest:
  assumes IHo: "\<And>s ps r. object_loop n s = Inr (ps, r) \<Longrightarrow> length r < length s"
    and IHa: "\<And>s vs r. array_loop n s = Inr (vs, r) \<Longrightarrow> length r < length s"
    and res: "scan_once (Suc n) s = Inr (v, r)"
  shows "length r < length s"
proof (cases s)
  case Nil
  with res show ?thesis by simp
next
  case (Cons c cs)
  consider (str) "c = 0x22" | (obj) "c = 0x7B" | (arr) "c = 0x5B"
    | (other) "c \<noteq> 0x22" "c \<noteq> 0x7B" "c \<noteq> 0x5B" by blast
  then show ?thesis
  proof cases
    case str
    with res Cons show ?thesis
      by (auto split: sum.splits dest: scanstring_rest)
  next
    case obj
    with res Cons show ?thesis
      by (auto split: sum.splits list.splits if_splits dest!: IHo skip_ws_Cons_length)
  next
    case arr
    with res Cons show ?thesis
      using length_skip_ws [of cs]
      by (auto split: sum.splits list.splits if_splits dest!: IHa skip_ws_Cons_length)
  next
    case other
    with res Cons show ?thesis
      by (auto split: option.splits if_splits dest!: scan_number_rest)
  qed
qed


lemma object_loop_step_rest:
  assumes IHv: "\<And>s v r. scan_once n s = Inr (v, r) \<Longrightarrow> length r < length s"
    and IHo: "\<And>s ps r. object_loop n s = Inr (ps, r) \<Longrightarrow> length r < length s"
    and res: "object_loop (Suc n) s = Inr (ps, r)"
  shows "length r < length s"
proof -
  from res obtain key r1 where k: "scanstring s = Inr (key, r1)"
    by (auto split: sum.splits)
  with res obtain colon r2 where c: "skip_ws r1 = colon # r2"
    by (auto split: list.splits)
  with res k obtain val r3 where v: "scan_once n (skip_ws r2) = Inr (val, r3)"
    by (auto split: if_splits sum.splits)
  with res k c obtain nextchar r4 where n: "skip_ws r3 = nextchar # r4"
    by (auto split: if_splits list.splits)
  have l4: "length r4 < length s"
    using scanstring_rest [OF k] skip_ws_Cons_length [OF c] IHv [OF v] length_skip_ws [of r2]
      skip_ws_Cons_length [OF n] by simp
  show ?thesis
  proof (cases "nextchar = 0x7D")
    case True
    with res k c v n l4 show ?thesis by (auto split: if_splits)
  next
    case False
    with res k c v n obtain quote r5 pairs where "skip_ws r4 = quote # r5"
      "object_loop n r5 = Inr (pairs, r)"
      by (auto split: if_splits list.splits sum.splits)
    with l4 IHo [of r5 pairs r] skip_ws_Cons_length [of r4 quote r5] show ?thesis by simp
  qed
qed

lemma array_loop_step_rest:
  assumes IHv: "\<And>s v r. scan_once n s = Inr (v, r) \<Longrightarrow> length r < length s"
    and IHa: "\<And>s vs r. array_loop n s = Inr (vs, r) \<Longrightarrow> length r < length s"
    and res: "array_loop (Suc n) s = Inr (vs, r)"
  shows "length r < length s"
proof -
  from res obtain val r1 where v: "scan_once n s = Inr (val, r1)"
    by (auto split: sum.splits)
  with res obtain nextchar r2 where n: "skip_ws r1 = nextchar # r2"
    by (auto split: list.splits)
  have l2: "length r2 < length s"
    using IHv [OF v] skip_ws_Cons_length [OF n] by simp
  show ?thesis
  proof (cases "nextchar = 0x5D")
    case True
    with res v n l2 show ?thesis by (auto split: if_splits)
  next
    case False
    with res v n obtain vals where "array_loop n (skip_ws r2) = Inr (vals, r)"
      by (auto split: if_splits sum.splits)
    with l2 IHa [of "skip_ws r2" vals r] length_skip_ws [of r2] show ?thesis by simp
  qed
qed

lemma scan_rest:
  "(\<forall>s v r. scan_once n s = Inr (v, r) \<longrightarrow> length r < length s) \<and>
   (\<forall>s ps r. object_loop n s = Inr (ps, r) \<longrightarrow> length r < length s) \<and>
   (\<forall>s vs r. array_loop n s = Inr (vs, r) \<longrightarrow> length r < length s)"
proof (induction n)
  case 0
  show ?case by simp
next
  case (Suc n)
  then have v: "\<And>s v r. scan_once n s = Inr (v, r) \<Longrightarrow> length r < length s"
    and o: "\<And>s ps r. object_loop n s = Inr (ps, r) \<Longrightarrow> length r < length s"
    and a: "\<And>s vs r. array_loop n s = Inr (vs, r) \<Longrightarrow> length r < length s"
    by blast+
  have "length r < length s" if "scan_once (Suc n) s = Inr (x, r)" for s x r
    using o a that by (rule scan_once_step_rest [where n = n])
  moreover have "length r < length s" if "object_loop (Suc n) s = Inr (ps, r)" for s ps r
    using v o that by (rule object_loop_step_rest [where n = n])
  moreover have "length r < length s" if "array_loop (Suc n) s = Inr (vs, r)" for s vs r
    using v a that by (rule array_loop_step_rest [where n = n])
  ultimately show ?case by blast
qed

lemma scan_once_rest: "scan_once n s = Inr (v, r) \<Longrightarrow> length r < length s"
  using scan_rest by blast


lemma append_chr_Inl: "append_chr c res = Inl e \<Longrightarrow> res = Inl e"
  by (cases res) auto

lemma scanstring_error: "scanstring s = Inl e \<Longrightarrow> \<exists>m. e = JSONDecodeError m"
proof (induction s rule: scanstring.induct)
  case 1
  then show ?case by auto
next
  case (2 c cs)
  show ?case
  proof (cases "c = 0x5C")
    case False
    with "2.prems" "2.IH"(1) show ?thesis
      by (auto split: if_splits dest!: append_chr_Inl)
  next
    case bs: True
    show ?thesis
    proof (cases cs)
      case Nil
      with bs "2.prems" show ?thesis by auto
    next
      case (Cons esc es)
      show ?thesis
      proof (cases "esc = 0x75")
        case False
        with bs Cons "2.prems" "2.IH"(2) [of esc es] show ?thesis
          by (auto split: option.splits dest!: append_chr_Inl)
      next
        case u: True
        show ?thesis
        proof (cases "decode_uXXXX es")
          case None
          with bs Cons u "2.prems" show ?thesis by auto
        next
          case (Some uni)
          let ?pair = "is_high_surrogate uni \<and> take 2 (drop 4 es) = [0x5C, 0x75]"
          have nq: "c \<noteq> 0x22" "\<not> c < 0x20" using bs by simp_all
          have step: "scanstring (c # cs) =
              (if drop 4 es = [] then Inl (JSONDecodeError Invalid_uXXXX_escape)
               else if ?pair then
                 (case decode_uXXXX (drop 6 es) of
                    None \<Rightarrow> Inl (JSONDecodeError Invalid_uXXXX_escape)
                  | Some uni2 \<Rightarrow>
                      if drop 10 es = [] then Inl (JSONDecodeError Invalid_uXXXX_escape)
                      else if is_low_surrogate uni2
                      then append_chr (join_pair uni uni2) (scanstring (drop 10 es))
                      else append_chr uni (scanstring (drop 4 es)))
               else append_chr uni (scanstring (drop 4 es)))"
            using bs Cons u Some by (simp only: scanstring.simps list.case option.case) simp
          show ?thesis
          proof (cases "drop 4 es = []")
            case True
            with step "2.prems" show ?thesis by auto
          next
            case d4: False
            show ?thesis
            proof (cases ?pair)
              case False
              with step d4 "2.prems" have "scanstring (drop 4 es) = Inl e"
                by (auto dest!: append_chr_Inl)
              with "2.IH"(5) [of esc es uni] nq bs Cons u Some d4 False show ?thesis by simp
            next
              case pair: True
              show ?thesis
              proof (cases "decode_uXXXX (drop 6 es)")
                case None
                with step d4 pair "2.prems" show ?thesis by auto
              next
                case uni2: (Some uni2)
                show ?thesis
                proof (cases "drop 10 es = []")
                  case True
                  with step d4 pair uni2 "2.prems" show ?thesis by auto
                next
                  case d10: False
                  show ?thesis
                  proof (cases "is_low_surrogate uni2")
                    case True
                    with step d4 d10 pair uni2 "2.prems" have "scanstring (drop 10 es) = Inl e"
                      by (auto dest!: append_chr_Inl)
                    with "2.IH"(3) [of esc es uni uni2] nq bs Cons u Some d4 d10 pair uni2 True
                    show ?thesis by simp
                  next
                    case False
                    with step d4 d10 pair uni2 "2.prems" have "scanstring (drop 4 es) = Inl e"
                      by (auto dest!: append_chr_Inl)
                    with "2.IH"(4) [of esc es uni uni2] nq bs Cons u Some d4 d10 pair uni2 False
                    show ?thesis by simp
                  qed
                qed
              qed
            qed
          qed
        qed
      qed
    qed
  qed
qed

lemma scanstring_fuel: "scanstring s \<noteq> Inl Fuel_exhausted"
  using scanstring_error by fastforce

lemma scan_number_fuel: "scan_number s \<noteq> Some (Inl Fuel_exhausted)"
  by (auto simp: scan_number_def split: option.splits)


lemma scan_once_step_fuel:
  assumes IHo: "\<And>s. 2 * length s + 1 < n \<Longrightarrow> object_loop n s \<noteq> Inl Fuel_exhausted"
    and IHa: "\<And>s. 2 * length s + 1 < n \<Longrightarrow> array_loop n s \<noteq> Inl Fuel_exhausted"
    and fuel: "2 * length s < Suc n"
  shows "scan_once (Suc n) s \<noteq> Inl Fuel_exhausted"
proof (cases s)
  case Nil
  then show ?thesis by simp
next
  case (Cons c cs)
  consider (str) "c = 0x22" | (obj) "c = 0x7B" | (arr) "c = 0x5B"
    | (other) "c \<noteq> 0x22" "c \<noteq> 0x7B" "c \<noteq> 0x5B" by blast
  then show ?thesis
  proof cases
    case str
    with Cons scanstring_fuel [of cs] show ?thesis
      by (auto split: sum.splits)
  next
    case obj
    show ?thesis
    proof (cases "skip_ws cs")
      case Nil
      with obj Cons show ?thesis by simp
    next
      case (Cons nextchar r)
      from skip_ws_Cons_length [OF this] fuel \<open>s = c # cs\<close>
      have "2 * length r + 1 < n" by simp
      from IHo [OF this] obj \<open>s = c # cs\<close> Cons show ?thesis
        by (auto split: sum.splits)
    qed
  next
    case arr
    show ?thesis
    proof (cases "skip_ws cs")
      case Nil
      with arr Cons show ?thesis by simp
    next
      case (Cons nextchar r)
      from length_skip_ws [of cs] fuel \<open>s = c # cs\<close> Cons
      have "2 * length (nextchar # r) + 1 < n" by simp
      from IHa [OF this] arr \<open>s = c # cs\<close> Cons show ?thesis
        by (auto split: sum.splits)
    qed
  next
    case other
    with Cons scan_number_fuel [of "c # cs"] show ?thesis
      by (auto split: option.splits)
  qed
qed

lemma object_loop_step_fuel:
  assumes IHv: "\<And>s. 2 * length s < n \<Longrightarrow> scan_once n s \<noteq> Inl Fuel_exhausted"
    and IHo: "\<And>s. 2 * length s + 1 < n \<Longrightarrow> object_loop n s \<noteq> Inl Fuel_exhausted"
    and fuel: "2 * length s + 1 < Suc n"
  shows "object_loop (Suc n) s \<noteq> Inl Fuel_exhausted"
proof
  assume ex: "object_loop (Suc n) s = Inl Fuel_exhausted"
  with scanstring_fuel [of s] obtain key r1 where k: "scanstring s = Inr (key, r1)"
    by (auto split: sum.splits)
  with ex obtain colon r2 where c: "skip_ws r1 = colon # r2" "colon = 0x3A"
    by (auto split: list.splits if_splits)
  have l2: "length r2 + 2 \<le> length s"
    using scanstring_rest [OF k] skip_ws_Cons_length [OF c(1)] by simp
  then have "2 * length (skip_ws r2) < n"
    using length_skip_ws [of r2] fuel by simp
  from IHv [OF this] ex k c obtain val r3 where v: "scan_once n (skip_ws r2) = Inr (val, r3)"
    by (auto split: sum.splits)
  with ex k c obtain r4 where n: "skip_ws r3 = 0x2C # r4"
    by (auto split: if_splits list.splits)
  with ex k c v obtain r5 where q: "skip_ws r4 = 0x22 # r5"
    by (auto split: if_splits list.splits)
  have "length r5 < length s"
    using l2 scan_once_rest [OF v] length_skip_ws [of r2] skip_ws_Cons_length [OF n]
      skip_ws_Cons_length [OF q] by simp
  with fuel have "2 * length r5 + 1 < n" by simp
  from IHo [OF this] ex k c v n q show False
    by (auto split: sum.splits)
qed

lemma array_loop_step_fuel:
  assumes IHv: "\<And>s. 2 * length s < n \<Longrightarrow> scan_once n s \<noteq> Inl Fuel_exhausted"
    and IHa: "\<And>s. 2 * length s + 1 < n \<Longrightarrow> array_loop n s \<noteq> Inl Fuel_exhausted"
    and fuel: "2 * length s + 1 < Suc n"
  shows "array_loop (Suc n) s \<noteq> Inl Fuel_exhausted"
proof
  assume ex: "array_loop (Suc n) s = Inl Fuel_exhausted"
  from fuel have "2 * length s < n" by simp
  from IHv [OF this] ex obtain val r1 where v: "scan_once n s = Inr (val, r1)"
    by (auto split: sum.splits)
  with ex obtain r2 where n: "skip_ws r1 = 0x2C # r2"
    by (auto split: if_splits list.splits)
  have "length (skip_ws r2) < length s"
    using scan_once_rest [OF v] skip_ws_Cons_length [OF n] length_skip_ws [of r2] by simp
  with fuel have "2 * length (skip_ws r2) + 1 < n" by simp
  from IHa [OF this] ex v n show False
    by (auto split: sum.splits)
qed

lemma scan_fuel:
  "(\<forall>s. 2 * length s < n \<longrightarrow> scan_once n s \<noteq> Inl Fuel_exhausted) \<and>
   (\<forall>s. 2 * length s + 1 < n \<longrightarrow> object_loop n s \<noteq> Inl Fuel_exhausted) \<and>
   (\<forall>s. 2 * length s + 1 < n \<longrightarrow> array_loop n s \<noteq> Inl Fuel_exhausted)"
proof (induction n)
  case 0
  show ?case by simp
next
  case (Suc n)
  then have v: "\<And>s. 2 * length s < n \<Longrightarrow> scan_once n s \<noteq> Inl Fuel_exhausted"
    and o: "\<And>s. 2 * length s + 1 < n \<Longrightarrow> object_loop n s \<noteq> Inl Fuel_exhausted"
    and a: "\<And>s. 2 * length s + 1 < n \<Longrightarrow> array_loop n s \<noteq> Inl Fuel_exhausted"
    by blast+
  have "scan_once (Suc n) s \<noteq> Inl Fuel_exhausted" if "2 * length s < Suc n" for s
    using o a that by (rule scan_once_step_fuel [where n = n])
  moreover have "object_loop (Suc n) s \<noteq> Inl Fuel_exhausted" if "2 * length s + 1 < Suc n" for s
    using v o that by (rule object_loop_step_fuel [where n = n])
  moreover have "array_loop (Suc n) s \<noteq> Inl Fuel_exhausted" if "2 * length s + 1 < Suc n" for s
    using v a that by (rule array_loop_step_fuel [where n = n])
  ultimately show ?case by blast
qed

lemma json_loads_fuel_suffices: "json_loads s \<noteq> Inl Fuel_exhausted"
proof -
  have "2 * length (skip_ws s) < 2 * length s + 1"
    using length_skip_ws [of s] by simp
  with scan_fuel have "scan_once (2 * length s + 1) (skip_ws s) \<noteq> Inl Fuel_exhausted"
    by blast
  then show ?thesis
    by (auto simp: json_loads_def split: sum.splits)
qed

section \<open>The scenarios of the generator\<close>

lemma scenario_distinct:
  "lit ''boundary'' \<noteq> lit ''normal''"
  "lit ''invalid_json'' \<noteq> lit ''normal''" "lit ''invalid_json'' \<noteq> lit ''boundary''"
  "lit ''missing_fields'' \<noteq> lit ''normal''" "lit ''missing_fields'' \<noteq> lit ''boundary''"
  "lit ''missing_fields'' \<noteq> lit ''invalid_json''"
  by (simp_all add: lit_def)

lemma create_normal: "create_test_message rid (lit ''normal'') = Inr (json_dumps (normal_message rid))"
  by (simp add: create_test_message_def)

lemma create_boundary: "create_test_message rid (lit ''boundary'') = Inr (json_dumps (boundary_message rid))"
  by (simp add: create_test_message_def scenario_distinct)

lemma create_invalid_json: "create_test_message rid (lit ''invalid_json'') = Inr (lit ''{ invalid json }'')"
  by (simp add: create_test_message_def scenario_distinct)

lemma create_missing_fields:
  "create_test_message rid (lit ''missing_fields'') = Inr (json_dumps (missing_fields_message rid))"
  by (simp add: create_test_message_def scenario_distinct)

lemma load_normal:
  "pystr_ok rid \<Longrightarrow> generate_and_load rid (lit ''normal'') = Some (normal_message (join_surrogates rid))"
  by (simp add: generate_and_load_def create_normal normal_loads)

lemma load_boundary:
  "pystr_ok rid \<Longrightarrow> generate_and_load rid (lit ''boundary'') = Some (boundary_message (join_surrogates rid))"
  by (simp add: generate_and_load_def create_boundary boundary_loads)

lemma load_missing_fields:
  "pystr_ok rid \<Longrightarrow>
   generate_and_load rid (lit ''missing_fields'') = Some (missing_fields_message (join_surrogates rid))"
  by (simp add: generate_and_load_def create_missing_fields missing_fields_loads)

lemma load_invalid_json: "generate_and_load rid (lit ''invalid_json'') = None"
  by (simp add: generate_and_load_def create_invalid_json invalid_json_loads)

lemma join_no_pair: "\<not> has_surrogate_pair s \<Longrightarrow> join_surrogates s = s"
  by (induction s rule: has_surrogate_pair.induct) (auto split: if_splits)

lemma length_join: "length (join_surrogates s) \<le> length s"
  by (induction s rule: join_surrogates.induct) auto

lemma join_pair_shorter: "has_surrogate_pair s \<Longrightarrow> length (join_surrogates s) < length s"
proof (induction s rule: has_surrogate_pair.induct)
  case (1 h l cs)
  then show ?case using length_join [of cs] by (auto split: if_splits)
qed simp_all

lemma join_fixed_iff: "join_surrogates s = s \<longleftrightarrow> \<not> has_surrogate_pair s"
  using join_no_pair join_pair_shorter by (metis less_irrefl)

section \<open>The formula in integer arithmetic\<close>

lemma expected_score_int_eq:
  "expected_score w1 w2 w3 w4 r s b = expected_score_int w1 w2 w3 w4 r s b"
proof -
  have "weighted_sum w1 w2 w3 w4 r s b * 255 / 10000 =
        of_int ((10000 * w1 + w2 * r + 10000 * w3 * s + 10000 * w4 * b) * 255) / of_int 100000000"
    by (simp add: weighted_sum_def field_simps)
  then show ?thesis
    unfolding expected_score_def expected_score_int_def
    by (simp only: floor_divide_of_int_eq)
qed

lemma score_normal_inputs: "expected_score 1500 2000 2500 4000 7500 1 1 = 242"
  by (simp add: expected_score_int_eq expected_score_int_def)

lemma score_boundary_inputs: "expected_score 1500 2000 2500 4000 10000 1 1 = 255"
  by (simp add: expected_score_int_eq expected_score_int_def)


section \<open>The fixtures against the invariant, and the request id read from the payload\<close>

lemma normal_fixture_expected_output:
  "int_field (normal_message rid) (lit ''public_inputs'') (lit ''expected_output'') = Some 204"
  by (simp add: int_field_def normal_message_def lit_def)

lemma normal_fixture_not_invariant: "\<not> request_invariant (normal_message rid)"
  by (simp add: request_invariant_def int_field_def normal_message_def lit_def score_normal_inputs)

lemma boundary_fixture_keeps_invariant:
  "request_invariant (boundary_message rid)"
  by (simp add: request_invariant_def int_field_def boundary_message_def lit_def score_boundary_inputs)

lemma payload_request_id_normal:
  "pystr_ok rid \<Longrightarrow> payload_request_id rid (lit ''normal'') = Some (PyStr (join_surrogates rid))"
  by (simp add: payload_request_id_def load_normal normal_message_def)

lemma payload_request_id_boundary:
  "pystr_ok rid \<Longrightarrow> payload_request_id rid (lit ''boundary'') = Some (PyStr (join_surrogates rid))"
  by (simp add: payload_request_id_def load_boundary boundary_message_def)

lemma payload_request_id_missing_fields:
  "pystr_ok rid \<Longrightarrow>
   payload_request_id rid (lit ''missing_fields'') = Some (PyStr (join_surrogates rid))"
  by (simp add: payload_request_id_def load_missing_fields missing_fields_message_def)

lemma payload_request_id_invalid_json: "payload_request_id rid (lit ''invalid_json'') = None"
  by (simp add: payload_request_id_def load_invalid_json)

lemma escape_surrogate_pair: "escape_str [0xD83D, 0xDE00] = escape_str [0x1F600]"
  by (simp add: escape_str_def escape_char_def Let_def)

section \<open>The claims\<close>

text \<open>
  C1 (fails on the code): the data model's invariant says that \<open>expected_output\<close> is the
  formula's value on the embedded weights and verification results. The Normal fixture
  embeds 204, and the formula on its inputs (weighted sum 9500) gives
  \<open>floor(9500 * 255 / 10000) = 242\<close>: the payload generated for request id
  \<open>test-normal-1\<close> parses back to the message, whose fields break the invariant.
\<close>

theorem normal_fixture_breaks_invariant:
  "generate_and_load (lit ''test-normal-1'') (lit ''normal'') = Some (normal_message (lit ''test-normal-1''))
   \<and> int_field (normal_message (lit ''test-normal-1'')) (lit ''public_inputs'') (lit ''expected_output'') = Some 204
   \<and> expected_score 1500 2000 2500 4000 7500 1 1 = 242
   \<and> \<not> request_invariant (normal_message (lit ''test-normal-1''))"
proof -
  have ok: "pystr_ok (lit ''test-normal-1'')" by (simp add: pystr_ok_def lit_def)
  have j: "join_surrogates (lit ''test-normal-1'') = lit ''test-normal-1''"
    by (rule join_no_pair) (simp add: lit_def is_high_surrogate_def)
  show ?thesis
    using load_normal [OF ok]
    by (simp add: j normal_fixture_not_invariant normal_fixture_expected_output score_normal_inputs)
qed

text \<open>
  C2: for every request id (a well-formed Python string), the Normal payload parses to an
  object whose \<open>verification_results\<close> are \<open>recaptcha_score = 7500\<close>, \<open>sms_verified = 1\<close>,
  \<open>bio_verified = 1\<close>, whose \<open>public_inputs\<close> are the weights 1500, 2000, 2500, 4000 and
  \<open>expected_output = 204\<close>.
\<close>

theorem normal_scenario_fields:
  assumes "pystr_ok request_id"
  shows "\<exists>m. generate_and_load request_id (lit ''normal'') = Some m
     \<and> dict_get m (lit ''verification_results'') = Some (PyDict
         [(lit ''recaptcha_score'', PyInt 7500),
          (lit ''sms_verified'', PyInt 1),
          (lit ''bio_verified'', PyInt 1)])
     \<and> dict_get m (lit ''public_inputs'') = Some (PyDict
         [(lit ''w1'', PyInt 1500),
          (lit ''w2'', PyInt 2000),
          (lit ''w3'', PyInt 2500),
          (lit ''w4'', PyInt 4000),
          (lit ''expected_output'', PyInt 204)])
     \<and> int_field m (lit ''public_inputs'') (lit ''expected_output'') = Some 204"
  using load_normal [OF assms]
  by (simp add: normal_message_def int_field_def lit_def)

theorem normal_scenario_fields_witness:
  "pystr_ok (lit ''test-normal-1'') \<and>
   (\<exists>m. generate_and_load (lit ''test-normal-1'') (lit ''normal'') = Some m
     \<and> dict_get m (lit ''verification_results'') = Some (PyDict
         [(lit ''recaptcha_score'', PyInt 7500),
          (lit ''sms_verified'', PyInt 1),
          (lit ''bio_verified'', PyInt 1)])
     \<and> dict_get m (lit ''public_inputs'') = Some (PyDict
         [(lit ''w1'', PyInt 1500),
          (lit ''w2'', PyInt 2000),
          (lit ''w3'', PyInt 2500),
          (lit ''w4'', PyInt 4000),
          (lit ''expected_output'', PyInt 204)])
     \<and> int_field m (lit ''public_inputs'') (lit ''expected_output'') = Some 204)"
proof -
  have ok: "pystr_ok (lit ''test-normal-1'')" by (simp add: pystr_ok_def lit_def)
  from normal_scenario_fields [OF ok] ok show ?thesis by (rule_tac conjI)
qed

text \<open>
  C3: for every request id, the Boundary payload carries \<open>expected_output = 255\<close>; the
  formula under the fixed weights 1500, 2000, 2500, 4000 is 255 at the maximum valid
  inputs (\<open>recaptcha_score = 10000\<close>, \<open>sms_verified = 1\<close>, \<open>bio_verified = 1\<close>), and no
  valid inputs make it exceed 255.
\<close>

theorem boundary_saturates:
  assumes "pystr_ok request_id"
  shows "(\<exists>m. generate_and_load request_id (lit ''boundary'') = Some m
            \<and> int_field m (lit ''public_inputs'') (lit ''expected_output'') = Some 255)
     \<and> expected_score 1500 2000 2500 4000 10000 1 1 = 255
     \<and> (\<forall>r s b. 0 \<le> r \<and> r \<le> 10000 \<and> (s = 0 \<or> s = 1) \<and> (b = 0 \<or> b = 1) \<longrightarrow>
           expected_score 1500 2000 2500 4000 r s b \<le> 255)"
proof (intro conjI allI impI)
  show "\<exists>m. generate_and_load request_id (lit ''boundary'') = Some m
            \<and> int_field m (lit ''public_inputs'') (lit ''expected_output'') = Some 255"
    using load_boundary [OF assms] by (simp add: boundary_message_def int_field_def lit_def)
  show "expected_score 1500 2000 2500 4000 10000 1 1 = 255"
    by (rule score_boundary_inputs)
next
  fix r s b :: int
  assume h: "0 \<le> r \<and> r \<le> 10000 \<and> (s = 0 \<or> s = 1) \<and> (b = 0 \<or> b = 1)"
  then have "10000 * 1500 + 2000 * r + 10000 * 2500 * s + 10000 * 4000 * b \<le> 100000000"
    by auto
  then have "(10000 * 1500 + 2000 * r + 10000 * 2500 * s + 10000 * 4000 * b) * 255 < 256 * 100000000"
    by simp
  then show "expected_score 1500 2000 2500 4000 r s b \<le> 255"
    unfolding expected_score_int_eq expected_score_int_def
    by (simp add: div_less_iff_less_mult del: mult_numeral_left_semiring_numeral)
qed


theorem boundary_saturates_witness:
  "pystr_ok (lit ''test-boundary-1'')
   \<and> (\<exists>m. generate_and_load (lit ''test-boundary-1'') (lit ''boundary'') = Some m
            \<and> int_field m (lit ''public_inputs'') (lit ''expected_output'') = Some 255)
   \<and> (0::int) \<le> 5000 \<and> (5000::int) \<le> 10000
   \<and> expected_score 1500 2000 2500 4000 5000 1 0 \<le> 255"
proof -
  have ok: "pystr_ok (lit ''test-boundary-1'')" by (simp add: pystr_ok_def lit_def)
  from boundary_saturates [OF ok] ok show ?thesis by simp
qed

text \<open>
  C4: a scenario name other than \<open>normal\<close>, \<open>boundary\<close>, \<open>invalid_json\<close> and
  \<open>missing_fields\<close> makes the call raise (\<open>ValueError\<close>, the spec's InvalidScenario), for
  every request id, and no payload is returned.
\<close>

theorem unknown_scenario_raises:
  assumes "scenario \<notin> {lit ''normal'', lit ''boundary'', lit ''invalid_json'', lit ''missing_fields''}"
  shows "create_test_message request_id scenario = Inl (ValueError (lit ''Unknown scenario: '' @ scenario))
     \<and> (\<forall>payload. create_test_message request_id scenario \<noteq> Inr payload)"
  using assms by (simp add: create_test_message_def)

theorem unknown_scenario_raises_witness:
  "lit ''bogus'' \<notin> {lit ''normal'', lit ''boundary'', lit ''invalid_json'', lit ''missing_fields''}
   \<and> create_test_message (lit ''r1'') (lit ''bogus'') = Inl (ValueError (lit ''Unknown scenario: bogus''))
   \<and> (\<forall>payload. create_test_message (lit ''r1'') (lit ''bogus'') \<noteq> Inr payload)"
proof -
  have h: "lit ''bogus'' \<notin> {lit ''normal'', lit ''boundary'', lit ''invalid_json'', lit ''missing_fields''}"
    by (simp add: lit_def)
  have "lit ''Unknown scenario: '' @ lit ''bogus'' = lit ''Unknown scenario: bogus''"
    by (simp add: lit_def)
  with unknown_scenario_raises [OF h, of "lit ''r1''"] h show ?thesis by simp
qed

text \<open>
  C5: for every request id, the InvalidJson scenario returns a payload that
  \<open>json.loads\<close> rejects: parsing it raises \<open>JSONDecodeError\<close> ("Expecting property name
  enclosed in double quotes") and yields no value.
\<close>

theorem invalid_json_fails_parsing:
  "\<exists>payload. create_test_message request_id (lit ''invalid_json'') = Inr payload
     \<and> json_loads payload = Inl (JSONDecodeError Expecting_property_name)
     \<and> generate_and_load request_id (lit ''invalid_json'') = None"
  by (simp add: create_invalid_json invalid_json_loads load_invalid_json)

text \<open>
  C6: for every request id, the MissingFields payload parses as JSON; its
  \<open>verification_results\<close> object has \<open>recaptcha_score = 7500\<close> and \<open>sms_verified = 1\<close> and no
  \<open>bio_verified\<close> field, and its \<open>public_inputs\<close> are the weights 1500, 2000, 2500, 4000
  and \<open>expected_output = 204\<close>.
\<close>

theorem missing_fields_scenario_fields:
  assumes "pystr_ok request_id"
  shows "\<exists>m vr. generate_and_load request_id (lit ''missing_fields'') = Some m
     \<and> dict_get m (lit ''verification_results'') = Some vr
     \<and> dict_get vr (lit ''bio_verified'') = None
     \<and> dict_get vr (lit ''recaptcha_score'') = Some (PyInt 7500)
     \<and> dict_get vr (lit ''sms_verified'') = Some (PyInt 1)
     \<and> dict_get m (lit ''public_inputs'') = Some (PyDict
         [(lit ''w1'', PyInt 1500),
          (lit ''w2'', PyInt 2000),
          (lit ''w3'', PyInt 2500),
          (lit ''w4'', PyInt 4000),
          (lit ''expected_output'', PyInt 204)])"
  using load_missing_fields [OF assms]
  by (simp add: missing_fields_message_def lit_def)

theorem missing_fields_scenario_fields_witness:
  "pystr_ok (lit ''test-missing-1'')
   \<and> (\<exists>m vr. generate_and_load (lit ''test-missing-1'') (lit ''missing_fields'') = Some m
     \<and> dict_get m (lit ''verification_results'') = Some vr
     \<and> dict_get vr (lit ''bio_verified'') = None
     \<and> dict_get vr (lit ''recaptcha_score'') = Some (PyInt 7500)
     \<and> dict_get vr (lit ''sms_verified'') = Some (PyInt 1)
     \<and> dict_get m (lit ''public_inputs'') = Some (PyDict
         [(lit ''w1'', PyInt 1500),
          (lit ''w2'', PyInt 2000),
          (lit ''w3'', PyInt 2500),
          (lit ''w4'', PyInt 4000),
          (lit ''expected_output'', PyInt 204)]))"
proof -
  have ok: "pystr_ok (lit ''test-missing-1'')" by (simp add: pystr_ok_def lit_def)
  from missing_fields_scenario_fields [OF ok] ok show ?thesis by (rule_tac conjI)
qed

text \<open>
  C7: for weights \<open>w1..w4\<close> and \<open>recaptcha\<close> in \<open>[0, 10000]\<close>, \<open>sms\<close> and \<open>bio\<close> in \<open>{0, 1}\<close>
  and a weighted sum \<open>w1 + w2 * recaptcha / 10000 + w3 * sms + w4 * bio\<close> of at most 10000,
  the formula's value lies in \<open>[0, 255]\<close>, and the computation in scaled integer
  arithmetic gives the same value.
\<close>

theorem score_in_byte_range:
  assumes "0 \<le> w1" "w1 \<le> 10000" "0 \<le> w2" "w2 \<le> 10000"
    and "0 \<le> w3" "w3 \<le> 10000" "0 \<le> w4" "w4 \<le> 10000"
    and "0 \<le> recaptcha" "recaptcha \<le> 10000"
    and "sms = 0 \<or> sms = 1" "bio = 0 \<or> bio = 1"
    and "weighted_sum w1 w2 w3 w4 recaptcha sms bio \<le> 10000"
  shows "0 \<le> expected_score w1 w2 w3 w4 recaptcha sms bio
     \<and> expected_score w1 w2 w3 w4 recaptcha sms bio \<le> 255
     \<and> expected_score_int w1 w2 w3 w4 recaptcha sms bio = expected_score w1 w2 w3 w4 recaptcha sms bio"
proof -
  let ?ws = "weighted_sum w1 w2 w3 w4 recaptcha sms bio"
  have sb: "0 \<le> sms" "0 \<le> bio" using assms(11,12) by auto
  have "0 \<le> ?ws"
    unfolding weighted_sum_def using assms(1,3,5,7,9) sb by simp
  then have "0 \<le> ?ws * 255 / 10000" by simp
  then have lo: "0 \<le> expected_score w1 w2 w3 w4 recaptcha sms bio"
    unfolding expected_score_def by simp
  from assms(13) have "?ws * 255 / 10000 \<le> 255" by simp
  then have "\<lfloor>?ws * 255 / 10000\<rfloor> \<le> \<lfloor>255 :: rat\<rfloor>" by (rule floor_mono)
  then have hi: "expected_score w1 w2 w3 w4 recaptcha sms bio \<le> 255"
    unfolding expected_score_def by simp
  from lo hi show ?thesis by (simp add: expected_score_int_eq)
qed

theorem score_in_byte_range_witness:
  "weighted_sum 1500 2000 2500 4000 7500 1 1 \<le> 10000
   \<and> 0 \<le> expected_score 1500 2000 2500 4000 7500 1 1
   \<and> expected_score 1500 2000 2500 4000 7500 1 1 \<le> 255
   \<and> expected_score_int 1500 2000 2500 4000 7500 1 1 = expected_score 1500 2000 2500 4000 7500 1 1"
proof -
  have h: "weighted_sum 1500 2000 2500 4000 7500 1 1 \<le> 10000"
    by (simp add: weighted_sum_def)
  from score_in_byte_range [of 1500 2000 2500 4000 7500 1 1, OF _ _ _ _ _ _ _ _ _ _ _ _ h] h
  show ?thesis by simp
qed

text \<open>
  C8 (fails as stated): a Python string may hold a high surrogate immediately followed
  by a low surrogate as two code points. \<open>json.dumps\<close> writes them as two \<open>\uXXXX\<close>
  escapes and \<open>json.loads\<close> reads the two escapes as one code point, so the request id
  \<open>[U+D83D, U+DE00]\<close> comes back as \<open>[U+1F600]\<close>.
\<close>

theorem roundtrip_surrogate_pair_counterexample:
  "generate_and_load [0xD83D, 0xDE00] (lit ''normal'') = Some (normal_message [0x1F600])
   \<and> generate_and_load [0xD83D, 0xDE00] (lit ''normal'') \<noteq> Some (normal_message [0xD83D, 0xDE00])"
proof -
  have ok: "pystr_ok [0xD83D, 0xDE00]" by (simp add: pystr_ok_def)
  have j: "join_surrogates [0xD83D, 0xDE00] = [0x1F600]"
    by (simp add: is_high_surrogate_def is_low_surrogate_def join_pair_def)
  have l: "generate_and_load [0xD83D, 0xDE00] (lit ''normal'') = Some (normal_message [0x1F600])"
    using load_normal [OF ok] by (simp only: j)
  have "normal_message [0x1F600] \<noteq> normal_message [0xD83D, 0xDE00]"
    by (simp add: normal_message_def)
  with l show ?thesis by simp
qed

text \<open>
  C8 (amended): for a request id that is a well-formed Python string, serializing the
  Normal or Boundary request and parsing the payload reproduces the request, with every
  field and value, exactly when the request id contains no high surrogate immediately
  followed by a low surrogate.
\<close>

theorem roundtrip_iff_no_surrogate_pair:
  assumes "pystr_ok request_id"
  shows "(generate_and_load request_id (lit ''normal'') = Some (normal_message request_id))
           = (\<not> has_surrogate_pair request_id)
     \<and> (generate_and_load request_id (lit ''boundary'') = Some (boundary_message request_id))
           = (\<not> has_surrogate_pair request_id)"
  using load_normal [OF assms] load_boundary [OF assms]
  by (simp add: normal_message_def boundary_message_def join_fixed_iff)

theorem roundtrip_iff_no_surrogate_pair_witness:
  "pystr_ok (lit ''test-normal-1'') \<and> \<not> has_surrogate_pair (lit ''test-normal-1'')
   \<and> generate_and_load (lit ''test-normal-1'') (lit ''normal'') = Some (normal_message (lit ''test-normal-1''))
   \<and> generate_and_load (lit ''test-normal-1'') (lit ''boundary'') = Some (boundary_message (lit ''test-normal-1''))"
proof -
  have ok: "pystr_ok (lit ''test-normal-1'')" by (simp add: pystr_ok_def lit_def)
  have np: "\<not> has_surrogate_pair (lit ''test-normal-1'')"
    by (simp add: lit_def is_high_surrogate_def)
  from roundtrip_iff_no_surrogate_pair [OF ok] ok np show ?thesis by simp
qed

text \<open>
  C10 (fails as stated): in the Normal scenario the \<open>request_id\<close> field of the payload
  need not equal the argument. The request id \<open>[U+D83D, U+DE00]\<close> is written as two
  \<open>\uXXXX\<close> escapes, which is also the encoding of \<open>[U+1F600]\<close>: the two arguments give the
  same payload, and its \<open>request_id\<close> field reads \<open>[U+1F600]\<close>.
\<close>

theorem request_id_field_counterexample:
  "payload_request_id [0xD83D, 0xDE00] (lit ''normal'') = Some (PyStr [0x1F600])
   \<and> payload_request_id [0xD83D, 0xDE00] (lit ''normal'') \<noteq> Some (PyStr [0xD83D, 0xDE00])
   \<and> create_test_message [0xD83D, 0xDE00] (lit ''normal'') = create_test_message [0x1F600] (lit ''normal'')"
proof -
  have ok: "pystr_ok [0xD83D, 0xDE00]" by (simp add: pystr_ok_def)
  have j: "join_surrogates [0xD83D, 0xDE00] = [0x1F600]"
    by (simp add: is_high_surrogate_def is_low_surrogate_def join_pair_def)
  have f: "payload_request_id [0xD83D, 0xDE00] (lit ''normal'') = Some (PyStr [0x1F600])"
    using payload_request_id_normal [OF ok] by (simp only: j)
  have p: "json_dumps (normal_message [0xD83D, 0xDE00]) = json_dumps (normal_message [0x1F600])"
    by (simp only: normal_payload escape_surrogate_pair)
  from f p show ?thesis by (simp add: create_normal)
qed

text \<open>
  C10 (amended): for the InvalidJson scenario the payload is the constant string
  \<open>{ invalid json }\<close>, the same for any two request ids, and it has no \<open>request_id\<close> field
  to read. In the Normal, Boundary and MissingFields scenarios the \<open>request_id\<close> field
  read from the payload equals the argument, a well-formed Python string, exactly when
  the argument contains no high surrogate immediately followed by a low surrogate.
\<close>

theorem request_id_field_iff_no_surrogate_pair:
  assumes "pystr_ok request_id"
  shows "create_test_message request_id (lit ''invalid_json'') = Inr (lit ''{ invalid json }'')
     \<and> create_test_message request_id (lit ''invalid_json'') =
         create_test_message request_id' (lit ''invalid_json'')
     \<and> payload_request_id request_id (lit ''invalid_json'') = None
     \<and> (payload_request_id request_id (lit ''normal'') = Some (PyStr request_id))
           = (\<not> has_surrogate_pair request_id)
     \<and> (payload_request_id request_id (lit ''boundary'') = Some (PyStr request_id))
           = (\<not> has_surrogate_pair request_id)
     \<and> (payload_request_id request_id (lit ''missing_fields'') = Some (PyStr request_id))
           = (\<not> has_surrogate_pair request_id)"
  using payload_request_id_normal [OF assms] payload_request_id_boundary [OF assms]
    payload_request_id_missing_fields [OF assms]
  by (simp add: create_invalid_json payload_request_id_invalid_json join_fixed_iff)

theorem request_id_field_iff_no_surrogate_pair_witness:
  "pystr_ok (lit ''test-normal-1'') \<and> \<not> has_surrogate_pair (lit ''test-normal-1'')
   \<and> create_test_message (lit ''test-normal-1'') (lit ''invalid_json'') = Inr (lit ''{ invalid json }'')
   \<and> create_test_message (lit ''test-normal-1'') (lit ''invalid_json'') =
       create_test_message (lit ''another-id'') (lit ''invalid_json'')
   \<and> payload_request_id (lit ''test-normal-1'') (lit ''invalid_json'') = None
   \<and> payload_request_id (lit ''test-normal-1'') (lit ''normal'') = Some (PyStr (lit ''test-normal-1''))
   \<and> payload_request_id (lit ''test-normal-1'') (lit ''boundary'') = Some (PyStr (lit ''test-normal-1''))
   \<and> payload_request_id (lit ''test-normal-1'') (lit ''missing_fields'') =
       Some (PyStr (lit ''test-normal-1''))"
proof -
  have ok: "pystr_ok (lit ''test-normal-1'')" by (simp add: pystr_ok_def lit_def)
  have np: "\<not> has_surrogate_pair (lit ''test-normal-1'')"
    by (simp add: lit_def is_high_surrogate_def)
  from request_id_field_iff_no_surrogate_pair [OF ok, of "lit ''another-id''"] ok np
  show ?thesis by (simp add: create_invalid_json)
qed

end
